theory Spec2Isabelle
  imports
    Complex_Main
    "HOL-Library.AList"
    "HOL-Library.Char_ord"
    "HOL-Library.List_Lexorder"
    "HOL-Library.Multiset"
begin

section \<open>The chatbot vocabulary (chatbot/patterns.py) and responder (chatbot/brain.py)\<close>

text \<open>
  Python strings are modelled as \<open>string\<close>, holding the UTF-8 bytes of the text. With
  \<open>Char_ord\<close> and \<open>List_Lexorder\<close> the order on \<open>string\<close> is the lexicographic order
  on bytes, which on UTF-8 coincides with Python's order on code points, so \<open>sort\<close> is
  Python's \<open>sorted\<close> on lists of distinct strings.
\<close>

subsection \<open>Errors\<close>

text \<open>The Python exceptions the two modules can raise, as values.\<close>

datatype error =
    KeyError string
  | IndexError
  | ValueError
  | AttributeError
  | FileNotFoundError

subsection \<open>Data\<close>

text \<open>
  \<open>self._patterns\<close> is \<open>{"tags": {tag: {"stems": [...], "answers": [...]}}, "stems": [...]}\<close>.
  The inner dictionary is an association list in insertion order, as a Python dict is;
  the global list \<open>self._patterns["stems"]\<close> is the field \<open>all_stems\<close>.
\<close>

record intent_data =
  stems :: "string list"
  answers :: "string list"

record patterns =
  tags :: "(string \<times> intent_data) list"
  all_stems :: "string list"

text \<open>
  One record of the catalog file, a JSON object: each of the four keys of the format may
  be absent, and \<open>other_keys\<close> lists the keys the object holds besides them. The object
  is falsy in Python exactly when it has no key at all.
\<close>

record intent =
  tag :: "string option"
  patterns :: "string list option"
  responses :: "string list option"
  context_of :: "string list option"
  other_keys :: "string list"

text \<open>
  What comes from nltk and is not code of the repository: the character class \<open>\w\<close> of
  the tokenizer's regular expression, \<open>str.lower\<close>, the French stemmer and the stop-word
  list. \<open>\w\<close> classifies code points, so \<open>wordchar\<close> reads the UTF-8 bytes of one code
  point.
\<close>

record nlp =
  wordchar :: "string \<Rightarrow> bool"
  lower :: "string \<Rightarrow> string"
  stem :: "string \<Rightarrow> string"
  stoplist :: "string list"

text \<open>The fresh state of \<open>Patterns()\<close> built with no pickle path.\<close>

definition empty_patterns :: patterns where
  "empty_patterns = \<lparr>tags = [], all_stems = []\<rparr>"

subsection \<open>Getters\<close>

definition get_all_tags :: "patterns \<Rightarrow> string list" where
  "get_all_tags p = sort (map fst (tags p))"

text \<open>\<open>dict.get\<close> gives \<open>None\<close> on a missing tag, and \<open>None.get\<close> raises AttributeError.\<close>

definition get_answers :: "patterns \<Rightarrow> string \<Rightarrow> error + string list" where
  "get_answers p t =
     (case map_of (tags p) t of None \<Rightarrow> Inl AttributeError | Some e \<Rightarrow> Inr (answers e))"

definition get_stems :: "patterns \<Rightarrow> string \<Rightarrow> error + string list" where
  "get_stems p t =
     (case map_of (tags p) t of None \<Rightarrow> Inl AttributeError | Some e \<Rightarrow> Inr (stems e))"

definition get_all_stems :: "patterns \<Rightarrow> string list" where
  "get_all_stems p = all_stems p"

subsection \<open>Stemming\<close>

text \<open>
  The characters of a Python string: in UTF-8 a code point is one byte that is not a
  continuation byte (\<open>10xxxxxx\<close>) followed by its continuation bytes. \<open>cur\<close> holds the
  bytes of the code point being read.
\<close>

definition continuation :: "char \<Rightarrow> bool" where
  "continuation c \<longleftrightarrow> digit7 c \<and> \<not> digit6 c"

fun code_points_from :: "string \<Rightarrow> string \<Rightarrow> string list" where
  "code_points_from cur [] = (if cur = [] then [] else [cur])"
| "code_points_from cur (c # cs) =
     (if continuation c then code_points_from (cur @ [c]) cs
      else (if cur = [] then [] else [cur]) @ code_points_from [c] cs)"

definition code_points :: "string \<Rightarrow> string list" where
  "code_points s = code_points_from [] s"

text \<open>
  \<open>RegexpTokenizer(r"\w+").tokenize\<close>: the maximal runs of word characters, left to
  right. \<open>cur\<close> is the run being read.
\<close>

fun tokenize_from :: "(string \<Rightarrow> bool) \<Rightarrow> string \<Rightarrow> string list \<Rightarrow> string list" where
  "tokenize_from w cur [] = (if cur = [] then [] else [cur])"
| "tokenize_from w cur (c # cs) =
     (if w c then tokenize_from w (cur @ c) cs
      else (if cur = [] then [] else [cur]) @ tokenize_from w [] cs)"

definition tokenize :: "(string \<Rightarrow> bool) \<Rightarrow> string \<Rightarrow> string list" where
  "tokenize w s = tokenize_from w [] (code_points s)"

text \<open>
  \<open>[self._stemmer.stem(word.lower()) for word in tokens if not word in self._stoplist]\<close>:
  the stop-word test is on the token as written, the stemmer gets the lower-cased token.
\<close>

definition stemming :: "nlp \<Rightarrow> string \<Rightarrow> string list" where
  "stemming n pattern =
     map (\<lambda>word. stem n (lower n word))
       (filter (\<lambda>word. word \<notin> set (stoplist n)) (tokenize (wordchar n) pattern))"

subsection \<open>Ingestion\<close>

text \<open>
  A method that mutates \<open>self._patterns\<close> returns the state it leaves behind together
  with its result, also when it raises.
\<close>

definition set_answers :: "string \<Rightarrow> string list \<Rightarrow> patterns \<Rightarrow> (error + unit) \<times> patterns" where
  "set_answers t as p =
     (case map_of (tags p) t of
        None \<Rightarrow> (Inl (KeyError t), p)
      | Some e \<Rightarrow> (Inr (), p\<lparr>tags := AList.update t (e\<lparr>answers := answers e @ as\<rparr>) (tags p)\<rparr>))"

text \<open>
  The body of the two loops of \<open>_set_stems\<close> for one stem \<open>w\<close>. \<open>tag_stems\<close> and
  \<open>all_stems\<close> are the very lists the appends extend, so each test sees the stems
  appended before it.
\<close>

definition add_stem :: "string \<Rightarrow> string \<Rightarrow> patterns \<Rightarrow> patterns" where
  "add_stem t w p =
     (let p1 = (case map_of (tags p) t of
                  None \<Rightarrow> p
                | Some e \<Rightarrow>
                    if w \<notin> set (stems e)
                    then p\<lparr>tags := AList.update t (e\<lparr>stems := stems e @ [w]\<rparr>) (tags p)\<rparr>
                    else p)
      in if w \<notin> set (all_stems p1) then p1\<lparr>all_stems := all_stems p1 @ [w]\<rparr> else p1)"

definition set_stems :: "string \<Rightarrow> string list list \<Rightarrow> patterns \<Rightarrow> (error + unit) \<times> patterns" where
  "set_stems t ls p =
     (case get_stems p t of
        Inl e \<Rightarrow> (Inl e, p)
      | Inr _ \<Rightarrow> (Inr (), fold (add_stem t) (concat ls) p))"

definition set_intent :: "nlp \<Rightarrow> intent \<Rightarrow> patterns \<Rightarrow> (error + unit) \<times> patterns" where
  "set_intent n i p =
     (case tag i of
        None \<Rightarrow> (Inl (KeyError ''tag''), p)
      | Some t \<Rightarrow>
          let p1 = (if t \<notin> set (get_all_tags p)
                    then p\<lparr>tags := AList.update t \<lparr>stems = [], answers = []\<rparr> (tags p)\<rparr>
                    else p)
          in (case responses i of
                None \<Rightarrow> (Inl (KeyError ''responses''), p1)
              | Some rs \<Rightarrow>
                  (case set_answers t rs p1 of
                     (Inl e, p2) \<Rightarrow> (Inl e, p2)
                   | (Inr _, p2) \<Rightarrow>
                       (case patterns i of
                          None \<Rightarrow> (Inl (KeyError ''patterns''), p2)
                        | Some ps \<Rightarrow> set_stems t (map (stemming n) ps) p2))))"

text \<open>\<open>if intent:\<close> is false exactly for the JSON object without any key.\<close>

definition truthy :: "intent \<Rightarrow> bool" where
  "truthy i \<longleftrightarrow>
     tag i \<noteq> None \<or> patterns i \<noteq> None \<or> responses i \<noteq> None \<or> context_of i \<noteq> None \<or>
     other_keys i \<noteq> []"

fun set_intents :: "nlp \<Rightarrow> intent list \<Rightarrow> patterns \<Rightarrow> (error + unit) \<times> patterns" where
  "set_intents n [] p = (Inr (), p)"
| "set_intents n (i # is) p =
     (if truthy i
      then (case set_intent n i p of
              (Inl e, p1) \<Rightarrow> (Inl e, p1)
            | (Inr _, p1) \<Rightarrow> set_intents n is p1)
      else set_intents n is p)"

text \<open>
  The catalog file: \<open>None\<close> when the path is not a file, otherwise the list under the
  key \<open>"intents"\<close> of the parsed JSON.
\<close>

definition parse_intents_file ::
  "nlp \<Rightarrow> intent list option \<Rightarrow> patterns \<Rightarrow> (error + unit) \<times> patterns" where
  "parse_intents_file n file p =
     (case file of
        None \<Rightarrow> (Inl FileNotFoundError, p)
      | Some intents \<Rightarrow> set_intents n intents p)"

text \<open>\<open>sorted(set(xs))\<close>.\<close>

definition sorted_set :: "string list \<Rightarrow> string list" where
  "sorted_set xs = sort (remdups xs)"

definition sort_tag_stems :: "string \<Rightarrow> (string \<times> intent_data) list \<Rightarrow> (string \<times> intent_data) list" where
  "sort_tag_stems t ts =
     (case map_of ts t of
        None \<Rightarrow> ts
      | Some e \<Rightarrow> AList.update t (e\<lparr>stems := sorted_set (stems e)\<rparr>) ts)"

definition sort_all_stems :: "patterns \<Rightarrow> patterns" where
  "sort_all_stems p =
     (let p1 = p\<lparr>all_stems := sorted_set (get_all_stems p)\<rparr>
      in p1\<lparr>tags := fold sort_tag_stems (map fst (tags p1)) (tags p1)\<rparr>)"

subsection \<open>Training data\<close>

text \<open>\<open>list.index\<close>: the first position of \<open>x\<close>, ValueError when there is none.\<close>

fun index_of :: "'a list \<Rightarrow> 'a \<Rightarrow> nat option" where
  "index_of [] x = None"
| "index_of (y # ys) x = (if y = x then Some 0 else map_option Suc (index_of ys x))"

text \<open>
  \<open>random.shuffle\<close>: for \<open>i\<close> from \<open>len(x) - 1\<close> down to \<open>1\<close>, exchange \<open>x[i]\<close> with
  \<open>x[randbelow(i + 1)]\<close>. \<open>draw i\<close> is the raw random number used at step \<open>i\<close>.
\<close>

fun shuffle_from :: "(nat \<Rightarrow> nat) \<Rightarrow> nat \<Rightarrow> 'a list \<Rightarrow> 'a list" where
  "shuffle_from draw 0 xs = xs"
| "shuffle_from draw (Suc i) xs =
     (let j = draw (Suc i) mod (Suc (Suc i))
      in shuffle_from draw i (xs[Suc i := xs ! j, j := xs ! Suc i]))"

definition shuffle :: "(nat \<Rightarrow> nat) \<Rightarrow> 'a list \<Rightarrow> 'a list" where
  "shuffle draw xs = shuffle_from draw (length xs - 1) xs"

type_synonym example = "bool list \<times> bool list"

text \<open>The rows of one tag: one per stem of the tag, in the order of the tag's list.\<close>

fun tag_rows :: "string list \<Rightarrow> string list \<Rightarrow> string \<Rightarrow> string list \<Rightarrow> error + example list" where
  "tag_rows all_tags stems_all t [] = Inr []"
| "tag_rows all_tags stems_all t (s # ss) =
     (case index_of stems_all s of
        None \<Rightarrow> Inl ValueError
      | Some k \<Rightarrow>
          (case index_of all_tags t of
             None \<Rightarrow> Inl ValueError
           | Some l \<Rightarrow>
               (case tag_rows all_tags stems_all t ss of
                  Inl e \<Rightarrow> Inl e
                | Inr rows \<Rightarrow>
                    Inr (((replicate (length stems_all) False)[k := True],
                          (replicate (length all_tags) False)[l := True]) # rows))))"

fun all_rows :: "patterns \<Rightarrow> string list \<Rightarrow> string list \<Rightarrow> error + example list" where
  "all_rows p all_tags [] = Inr []"
| "all_rows p all_tags (t # ts) =
     (case get_stems p t of
        Inl e \<Rightarrow> Inl e
      | Inr ss \<Rightarrow>
          (case tag_rows all_tags (get_all_stems p) t ss of
             Inl e \<Rightarrow> Inl e
           | Inr rows \<Rightarrow>
               (case all_rows p all_tags ts of
                  Inl e \<Rightarrow> Inl e
                | Inr rest \<Rightarrow> Inr (rows @ rest))))"

text \<open>
  \<open>nparray(training_data, dtype=object)\<close> of an empty list has one dimension, so the
  slices \<open>training_data[:,0]\<close> and \<open>training_data[:,1]\<close> raise IndexError; otherwise
  they are the first and the second components of the rows.
\<close>

definition make_training_data ::
  "(nat \<Rightarrow> nat) \<Rightarrow> patterns \<Rightarrow> error + (bool list list \<times> bool list list)" where
  "make_training_data draw p =
     (case all_rows p (get_all_tags p) (get_all_tags p) of
        Inl e \<Rightarrow> Inl e
      | Inr rows \<Rightarrow>
          (let training_data = shuffle draw rows
           in if training_data = [] then Inl IndexError
              else Inr (map fst training_data, map snd training_data)))"

text \<open>
  \<open>convert_intents\<close>: the value returned or the exception raised, the state of
  \<open>self._patterns\<close> afterwards, and the snapshot written by \<open>_save\<close> if that line was
  reached. The name of the pickle file is not modelled.
\<close>

record conversion =
  returned :: "error + (bool list list \<times> bool list list)"
  memory :: patterns
  saved :: "patterns option"

definition convert_intents ::
  "nlp \<Rightarrow> (nat \<Rightarrow> nat) \<Rightarrow> intent list option \<Rightarrow> patterns \<Rightarrow> conversion" where
  "convert_intents n draw file p =
     (case parse_intents_file n file p of
        (Inl e, p1) \<Rightarrow> \<lparr>returned = Inl e, memory = p1, saved = None\<rparr>
      | (Inr _, p1) \<Rightarrow>
          (let p2 = sort_all_stems p1
           in \<lparr>returned = make_training_data draw p2, memory = p2, saved = Some p2\<rparr>))"

subsection \<open>Inference\<close>

text \<open>
  The methods the responder calls are written in the same state-passing form as the
  ingestion methods: each returns the state of \<open>self._patterns\<close> it leaves behind.
\<close>

definition convert_sentence :: "nlp \<Rightarrow> string \<Rightarrow> patterns \<Rightarrow> bool list \<times> patterns" where
  "convert_sentence n sentence p =
     (let ws = stemming n sentence;
          stems_bin = map (\<lambda>w. if w \<in> set ws then True else False) (get_all_stems p)
      in (stems_bin, p))"

definition get_tag_by_index :: "int \<Rightarrow> patterns \<Rightarrow> (error + string) \<times> patterns" where
  "get_tag_by_index index p =
     (if index \<ge> 0
      then (let ts = get_all_tags p
            in if nat index < length ts then (Inr (ts ! nat index), p) else (Inl IndexError, p))
      else (Inr ''noanswer'', p))"

text \<open>\<open>random.choice\<close>, with \<open>r\<close> the raw random number: IndexError on an empty sequence.\<close>

definition choice :: "nat \<Rightarrow> 'a list \<Rightarrow> error + 'a" where
  "choice r seq = (if seq = [] then Inl IndexError else Inr (seq ! (r mod length seq)))"

definition choose_answer :: "nat \<Rightarrow> int \<Rightarrow> patterns \<Rightarrow> (error + string) \<times> patterns" where
  "choose_answer r index p =
     (case get_tag_by_index index p of
        (Inl e, p1) \<Rightarrow> (Inl e, p1)
      | (Inr intent, p1) \<Rightarrow>
          (case get_answers p1 intent of
             Inl e \<Rightarrow> (Inl e, p1)
           | Inr as \<Rightarrow> (choice r as, p1)))"

text \<open>
  \<open>ChatBotBrain\<close>: the vocabulary and the trained Keras model, of which only
  \<open>predict\<close> on one pattern is used. Probabilities are modelled as the real numbers the
  floating-point values denote.
\<close>

record brain =
  vocabulary :: patterns
  model :: "bool list \<Rightarrow> real list"

text \<open>
  \<open>_predict\<close>: \<open>results\<close> is the list the model's \<open>predict\<close> gives for the pattern;
  \<open>max\<close> of an empty list raises ValueError; \<open>results.index\<close> gives the first
  position of the maximum.
\<close>

definition predict :: "bool list \<Rightarrow> brain \<Rightarrow> (error + int) \<times> brain" where
  "predict pattern b =
     (let results = model b pattern
      in if results = [] then (Inl ValueError, b)
         else (case index_of results (Max (set results)) of
                 None \<Rightarrow> (Inl ValueError, b)
               | Some index \<Rightarrow> (Inr (if results ! index > 0.9 then int index else - 1), b)))"

definition which_intent :: "nlp \<Rightarrow> string \<Rightarrow> brain \<Rightarrow> (error + int) \<times> brain" where
  "which_intent n sentence b =
     (case convert_sentence n sentence (vocabulary b) of
        (pattern, p1) \<Rightarrow> predict pattern (b\<lparr>vocabulary := p1\<rparr>))"

definition answer :: "nlp \<Rightarrow> nat \<Rightarrow> string \<Rightarrow> brain \<Rightarrow> (error + string) \<times> brain" where
  "answer n r sentence b =
     (case which_intent n sentence b of
        (Inl e, b1) \<Rightarrow> (Inl e, b1)
      | (Inr index, b1) \<Rightarrow>
          (case choose_answer r index (vocabulary b1) of
             (res, p1) \<Rightarrow> (res, b1\<lparr>vocabulary := p1\<rparr>)))"

subsection \<open>Example data\<close>

text \<open>
  An instance of the nltk parameters for ASCII text (the ASCII part of \<open>\w\<close> and of
  \<open>str.lower\<close>), with the identity as stemmer and two French stop-words, a small
  catalog in the format of the class documentation, and the vocabulary built from it.
\<close>

definition ascii_wordchar :: "string \<Rightarrow> bool" where
  "ascii_wordchar cp \<longleftrightarrow>
     (case cp of
        [c] \<Rightarrow> c \<in> set ''abcdefghijklmnopqrstuvwxyzABCDEFGHIJKLMNOPQRSTUVWXYZ0123456789_''
      | _ \<Rightarrow> False)"

definition ascii_lower :: "string \<Rightarrow> string" where
  "ascii_lower s =
     map (\<lambda>c. case map_of (zip ''ABCDEFGHIJKLMNOPQRSTUVWXYZ'' ''abcdefghijklmnopqrstuvwxyz'') c of
                 None \<Rightarrow> c
               | Some d \<Rightarrow> d) s"

definition demo_nlp :: nlp where
  "demo_nlp =
     \<lparr>wordchar = ascii_wordchar, lower = ascii_lower, stem = (\<lambda>w. w),
      stoplist = [''le'', ''la'']\<rparr>"

definition demo_draw :: "nat \<Rightarrow> nat" where
  "demo_draw i = 7 * i + 3"

definition noanswer_intent :: intent where
  "noanswer_intent =
     \<lparr>tag = Some ''noanswer'', patterns = Some [], responses = Some [''Pardon ?''],
      context_of = Some [], other_keys = []\<rparr>"

definition hello_intent :: intent where
  "hello_intent =
     \<lparr>tag = Some ''hello'', patterns = Some [''Hello le monde !'', ''hi''],
      responses = Some [''Hey'', ''Hello.''], context_of = None, other_keys = []\<rparr>"

definition bye_intent :: intent where
  "bye_intent =
     \<lparr>tag = Some ''bye'', patterns = Some [''bye bye'', ''hello bye''],
      responses = Some [''Ciao''], context_of = None, other_keys = []\<rparr>"

definition empty_intent :: intent where
  "empty_intent =
     \<lparr>tag = None, patterns = None, responses = None, context_of = None, other_keys = []\<rparr>"

definition unknown_key_intent :: intent where
  "unknown_key_intent =
     \<lparr>tag = None, patterns = None, responses = None, context_of = None,
      other_keys = [''foo'']\<rparr>"

definition broken_intent :: intent where
  "broken_intent =
     \<lparr>tag = Some ''thanks'', patterns = Some [''merci''], responses = None,
      context_of = None, other_keys = []\<rparr>"

definition demo_catalog :: "intent list" where
  "demo_catalog = [noanswer_intent, hello_intent, bye_intent]"

definition demo_vocabulary :: patterns where
  "demo_vocabulary =
     \<lparr>tags =
        [(''noanswer'', \<lparr>stems = [], answers = [''Pardon ?'']\<rparr>),
         (''hello'', \<lparr>stems = [''hello'', ''hi'', ''monde''], answers = [''Hey'', ''Hello.'']\<rparr>),
         (''bye'', \<lparr>stems = [''bye'', ''hello''], answers = [''Ciao'']\<rparr>)],
      all_stems = [''bye'', ''hello'', ''hi'', ''monde'']\<rparr>"

definition demo_model :: "bool list \<Rightarrow> real list" where
  "demo_model pattern = (if pattern ! 1 then [0.02, 0.95, 0.03] else [0.3, 0.3, 0.4])"

definition demo_brain :: brain where
  "demo_brain = \<lparr>vocabulary = demo_vocabulary, model = demo_model\<rparr>"

subsection \<open>Notions used in the proofs\<close>

text \<open>
  The stems held by the tags, the agreement of the global list with them that ingestion
  keeps, and what \<open>_sort_all_stems\<close> does to one entry.
\<close>

definition tag_stem_set :: "patterns \<Rightarrow> string set" where
  "tag_stem_set p = {w. \<exists>t e. map_of (tags p) t = Some e \<and> w \<in> set (stems e)}"

definition consistent :: "patterns \<Rightarrow> bool" where
  "consistent p \<longleftrightarrow> set (all_stems p) = tag_stem_set p \<and> distinct (map fst (tags p))"

definition sort_entry :: "intent_data \<Rightarrow> intent_data" where
  "sort_entry e = e\<lparr>stems := sorted_set (stems e)\<rparr>"

text \<open>
  The row \<open>_make_training_data\<close> builds for the stem \<open>s\<close> of the tag \<open>t\<close>, and the
  stems list of a tag.
\<close>

definition row_of :: "string list \<Rightarrow> string list \<Rightarrow> string \<Rightarrow> string \<Rightarrow> example" where
  "row_of all_tags stems_all t s =
     ((replicate (length stems_all) False)[the (index_of stems_all s) := True],
      (replicate (length all_tags) False)[the (index_of all_tags t) := True])"

definition stems_of :: "patterns \<Rightarrow> string \<Rightarrow> string list" where
  "stems_of p t = (case map_of (tags p) t of None \<Rightarrow> [] | Some e \<Rightarrow> stems e)"

section \<open>Properties\<close>

subsection \<open>Positions in a list\<close>

lemma index_of_None: "index_of xs x = None \<longleftrightarrow> x \<notin> set xs"
  by (induction xs) auto

lemma index_of_Some:
  "index_of xs x = Some i \<Longrightarrow> i < length xs \<and> xs ! i = x \<and> (\<forall>j<i. xs ! j \<noteq> x)"
proof (induction xs arbitrary: i)
  case Nil
  then show ?case by simp
next
  case (Cons y ys)
  show ?case
  proof (cases "y = x")
    case True
    with Cons.prems show ?thesis by simp
  next
    case False
    with Cons.prems obtain k where k: "index_of ys x = Some k" "i = Suc k"
      by auto
    from Cons.IH[OF k(1)] False k(2) show ?thesis
      by (auto simp: nth_Cons split: nat.splits)
  qed
qed

subsection \<open>The confidence threshold\<close>

text \<open>
  Claim C3. For every non-empty list of probabilities the model returns, \<open>_predict\<close>
  returns \<open>-1\<close> when the maximum is at most \<open>0.9\<close> and the index of the maximum when it
  exceeds \<open>0.9\<close>; that index is the first position holding the maximum (every earlier
  position holds a strictly smaller probability).
\<close>

theorem predict_threshold:
  assumes "model b pattern \<noteq> []"
  shows "\<exists>i < length (model b pattern).
           model b pattern ! i = Max (set (model b pattern)) \<and>
           (\<forall>j < i. model b pattern ! j < model b pattern ! i) \<and>
           (Max (set (model b pattern)) \<le> 0.9 \<longrightarrow> fst (predict pattern b) = Inr (- 1)) \<and>
           (Max (set (model b pattern)) > 0.9 \<longrightarrow> fst (predict pattern b) = Inr (int i))"
proof -
  let ?rs = "model b pattern"
  have "Max (set ?rs) \<in> set ?rs" using assms by simp
  then obtain i where i: "index_of ?rs (Max (set ?rs)) = Some i"
    using index_of_None[of ?rs "Max (set ?rs)"] by (cases "index_of ?rs (Max (set ?rs))") auto
  from index_of_Some[OF i] have il: "i < length ?rs" and im: "?rs ! i = Max (set ?rs)"
    and first: "\<forall>j<i. ?rs ! j \<noteq> Max (set ?rs)" by auto
  have lt: "\<forall>j<i. ?rs ! j < ?rs ! i"
  proof (intro allI impI)
    fix j assume "j < i"
    then have "?rs ! j \<in> set ?rs" using il by simp
    then have "?rs ! j \<le> Max (set ?rs)" by simp
    with first \<open>j < i\<close> im show "?rs ! j < ?rs ! i" by fastforce
  qed
  have "fst (predict pattern b) = Inr (if ?rs ! i > 0.9 then int i else - 1)"
    using assms i by (simp add: predict_def Let_def)
  with il im lt show ?thesis by (intro exI[of _ i]) auto
qed

theorem predict_threshold_witness:
  "model demo_brain [False, True, False, False] \<noteq> [] \<and>
   fst (predict [False, True, False, False] demo_brain) = Inr 1 \<and>
   fst (predict [True, False, False, False] demo_brain) = Inr (- 1)"
  using predict_threshold[of demo_brain "[False, True, False, False]"]
  by (simp add: demo_brain_def demo_model_def predict_def)

subsection \<open>Resolving an index to a tag\<close>

text \<open>
  Claim C4. Whatever the vocabulary holds, \<open>_get_tag_by_index\<close> maps the unresolved
  sentinel \<open>-1\<close> to the tag \<open>"noanswer"\<close>.
\<close>

theorem get_tag_by_index_unresolved: "fst (get_tag_by_index (- 1) p) = Inr ''noanswer''"
  by (simp add: get_tag_by_index_def)

theorem get_tag_by_index_unresolved_witness:
  "fst (get_tag_by_index (- 1) empty_patterns) = Inr ''noanswer'' \<and>
   fst (get_tag_by_index (- 1) demo_vocabulary) = Inr ''noanswer''"
  using get_tag_by_index_unresolved[of empty_patterns]
    get_tag_by_index_unresolved[of demo_vocabulary]
  by simp

text \<open>
  Claim C10. Every strictly negative index is resolved to \<open>"noanswer"\<close> by
  \<open>_get_tag_by_index\<close>, and \<open>choose_answer\<close> then chooses among the answers of
  \<open>"noanswer"\<close>; an index that is at least the number of tags raises IndexError in
  both, with no fallback to \<open>"noanswer"\<close>.
\<close>

theorem negative_index_noanswer_large_index_error:
  "(index < 0 \<longrightarrow>
      fst (get_tag_by_index index p) = Inr ''noanswer'' \<and>
      fst (choose_answer r index p) =
        (case get_answers p ''noanswer'' of Inl e \<Rightarrow> Inl e | Inr as \<Rightarrow> choice r as)) \<and>
   (index \<ge> int (length (tags p)) \<longrightarrow>
      fst (get_tag_by_index index p) = Inl IndexError \<and>
      fst (choose_answer r index p) = Inl IndexError)"
  by (auto simp: get_tag_by_index_def choose_answer_def get_all_tags_def Let_def
      split: sum.splits)

theorem negative_index_noanswer_large_index_error_witness:
  "(- 5 < (0::int)) \<and>
   fst (get_tag_by_index (- 5) demo_vocabulary) = Inr ''noanswer'' \<and>
   fst (choose_answer 4 (- 5) demo_vocabulary) = Inr ''Pardon ?'' \<and>
   (3 \<ge> int (length (tags demo_vocabulary))) \<and>
   fst (get_tag_by_index 3 demo_vocabulary) = Inl IndexError \<and>
   fst (choose_answer 4 3 demo_vocabulary) = Inl IndexError"
  using negative_index_noanswer_large_index_error[of "- 5" demo_vocabulary 4]
    negative_index_noanswer_large_index_error[of 3 demo_vocabulary 4]
  by (simp add: demo_vocabulary_def get_answers_def choice_def)

subsection \<open>Choosing an answer\<close>

text \<open>
  Claim C8. When the index resolves to a tag of the vocabulary, \<open>choose_answer\<close> returns
  a member of that tag's answer list if the list is not empty, and fails if it is empty:
  the failure is the IndexError that \<open>random.choice\<close> raises on an empty sequence.
\<close>

theorem choose_answer_member:
  assumes "fst (get_tag_by_index index p) = Inr t" and "map_of (tags p) t = Some e"
  shows "(answers e \<noteq> [] \<longrightarrow> (\<exists>a \<in> set (answers e). fst (choose_answer r index p) = Inr a)) \<and>
         (answers e = [] \<longrightarrow> fst (choose_answer r index p) = Inl IndexError)"
proof -
  have p: "get_tag_by_index index p = (Inr t, p)"
    using assms(1) by (auto simp: get_tag_by_index_def Let_def split: if_splits)
  have c: "fst (choose_answer r index p) = choice r (answers e)"
    using p assms(2) by (simp add: choose_answer_def get_answers_def)
  show ?thesis
    unfolding c by (simp add: choice_def)
qed

theorem choose_answer_member_witness:
  "fst (get_tag_by_index 1 demo_vocabulary) = Inr ''hello'' \<and>
   map_of (tags demo_vocabulary) ''hello'' =
     Some \<lparr>stems = [''hello'', ''hi'', ''monde''], answers = [''Hey'', ''Hello.'']\<rparr> \<and>
   fst (choose_answer 5 1 demo_vocabulary) = Inr ''Hello.'' \<and>
   fst (get_tag_by_index 0 \<lparr>tags = [(''noanswer'', \<lparr>stems = [], answers = []\<rparr>)], all_stems = []\<rparr>)
     = Inr ''noanswer'' \<and>
   fst (choose_answer 5 0 \<lparr>tags = [(''noanswer'', \<lparr>stems = [], answers = []\<rparr>)], all_stems = []\<rparr>)
     = Inl IndexError"
proof -
  have t: "fst (get_tag_by_index 1 demo_vocabulary) = Inr ''hello''"
    by (simp add: get_tag_by_index_def get_all_tags_def demo_vocabulary_def)
  have m: "map_of (tags demo_vocabulary) ''hello'' =
      Some \<lparr>stems = [''hello'', ''hi'', ''monde''], answers = [''Hey'', ''Hello.'']\<rparr>"
    by (simp add: demo_vocabulary_def)
  let ?q = "\<lparr>tags = [(''noanswer'', \<lparr>stems = [], answers = []\<rparr>)], all_stems = []\<rparr>"
  have t': "fst (get_tag_by_index 0 ?q) = Inr ''noanswer''"
    by (simp add: get_tag_by_index_def get_all_tags_def)
  have m': "map_of (tags ?q) ''noanswer'' = Some \<lparr>stems = [], answers = []\<rparr>"
    by simp
  have c: "fst (choose_answer 5 1 demo_vocabulary) = Inr ''Hello.''"
    by code_simp
  from choose_answer_member[OF t m, of 5] choose_answer_member[OF t' m', of 5] t m t' c
  show ?thesis by simp
qed

subsection \<open>Encoding a sentence\<close>

text \<open>
  Claim C7. \<open>convert_sentence\<close> returns a vector as long as the global stem list, true
  at position \<open>i\<close> exactly when the \<open>i\<close>-th global stem is among the stems of the
  sentence; two sentences whose stems differ only outside the vocabulary get the same
  vector.
\<close>

theorem convert_sentence_vector:
  "length (fst (convert_sentence n s p)) = length (all_stems p) \<and>
   (\<forall>i < length (all_stems p).
      fst (convert_sentence n s p) ! i \<longleftrightarrow> all_stems p ! i \<in> set (stemming n s)) \<and>
   (\<forall>s'. set (stemming n s') \<inter> set (all_stems p) = set (stemming n s) \<inter> set (all_stems p)
      \<longrightarrow> fst (convert_sentence n s' p) = fst (convert_sentence n s p))"
proof (intro conjI allI impI)
  show "length (fst (convert_sentence n s p)) = length (all_stems p)"
    by (simp add: convert_sentence_def get_all_stems_def Let_def)
next
  fix i assume "i < length (all_stems p)"
  then show "fst (convert_sentence n s p) ! i \<longleftrightarrow> all_stems p ! i \<in> set (stemming n s)"
    by (simp add: convert_sentence_def get_all_stems_def Let_def)
next
  fix s'
  assume eq: "set (stemming n s') \<inter> set (all_stems p) = set (stemming n s) \<inter> set (all_stems p)"
  have "\<And>w. w \<in> set (all_stems p) \<Longrightarrow> w \<in> set (stemming n s') \<longleftrightarrow> w \<in> set (stemming n s)"
    using eq by blast
  then show "fst (convert_sentence n s' p) = fst (convert_sentence n s p)"
    by (simp add: convert_sentence_def get_all_stems_def Let_def)
qed

theorem convert_sentence_vector_witness:
  "fst (convert_sentence demo_nlp ''Hello World !'' demo_vocabulary) = [False, True, False, False] \<and>
   (1 < length (all_stems demo_vocabulary)) \<and>
   all_stems demo_vocabulary ! 1 \<in> set (stemming demo_nlp ''Hello World !'') \<and>
   fst (convert_sentence demo_nlp ''hello'' demo_vocabulary) =
     fst (convert_sentence demo_nlp ''Hello World !'' demo_vocabulary)"
proof -
  have s1: "stemming demo_nlp ''Hello World !'' = [''hello'', ''world'']"
    by (simp add: stemming_def demo_nlp_def tokenize_def code_points_def continuation_def
        ascii_wordchar_def ascii_lower_def)
  have s2: "stemming demo_nlp ''hello'' = [''hello'']"
    by (simp add: stemming_def demo_nlp_def tokenize_def code_points_def continuation_def
        ascii_wordchar_def ascii_lower_def)
  have a: "all_stems demo_vocabulary = [''bye'', ''hello'', ''hi'', ''monde'']"
    by (simp add: demo_vocabulary_def)
  have i: "set (stemming demo_nlp ''hello'') \<inter> set (all_stems demo_vocabulary) =
           set (stemming demo_nlp ''Hello World !'') \<inter> set (all_stems demo_vocabulary)"
    unfolding s1 s2 a by auto
  have v: "fst (convert_sentence demo_nlp ''Hello World !'' demo_vocabulary) =
      [False, True, False, False]"
    by (simp add: convert_sentence_def get_all_stems_def Let_def s1 a)
  from convert_sentence_vector[of demo_nlp "''Hello World !''" demo_vocabulary] i v
  show ?thesis by (simp add: a s1)
qed

subsection \<open>Inference reads the vocabulary only\<close>

text \<open>
  Claim C9. None of the inference operations changes \<open>self._patterns\<close>:
  \<open>convert_sentence\<close>, \<open>_get_tag_by_index\<close> and \<open>choose_answer\<close> leave the vocabulary as
  it was, and \<open>_predict\<close>, \<open>_which_intent\<close> and \<open>answer\<close> leave the brain, hence its tags
  mapping and its global stem list, as they were.
\<close>

theorem inference_leaves_vocabulary:
  "snd (convert_sentence n s p) = p \<and>
   snd (get_tag_by_index index p) = p \<and>
   snd (choose_answer r index p) = p \<and>
   snd (predict pattern b) = b \<and>
   snd (which_intent n s b) = b \<and>
   snd (answer n r s b) = b \<and>
   tags (vocabulary (snd (answer n r s b))) = tags (vocabulary b) \<and>
   all_stems (vocabulary (snd (answer n r s b))) = all_stems (vocabulary b)"
proof -
  have cs: "snd (convert_sentence n s p) = p" for p
    by (simp add: convert_sentence_def Let_def)
  have gt: "snd (get_tag_by_index index p) = p" for index p
    by (simp add: get_tag_by_index_def Let_def)
  have ca: "snd (choose_answer r index p) = p" for index p
    using gt[of index p]
    by (auto simp: choose_answer_def split: prod.splits sum.splits)
  have pr: "snd (predict pattern b) = b" for pattern b
    by (simp add: predict_def Let_def split: option.splits)
  have wi: "snd (which_intent n s b) = b"
    using cs[of "vocabulary b"] pr
    by (auto simp: which_intent_def split: prod.splits)
  have an: "snd (answer n r s b) = b"
  proof (cases "which_intent n s b")
    case (Pair res b1)
    with wi have b1: "b1 = b" by simp
    show ?thesis
    proof (cases res)
      case (Inl e)
      with Pair b1 show ?thesis by (simp add: answer_def)
    next
      case (Inr i)
      obtain res2 p1 where c: "choose_answer r i (vocabulary b) = (res2, p1)"
        by (cases "choose_answer r i (vocabulary b)")
      with ca[of i "vocabulary b"] have "p1 = vocabulary b" by simp
      with Pair b1 Inr c show ?thesis by (simp add: answer_def)
    qed
  qed
  show ?thesis using cs gt ca pr wi an by simp
qed

theorem inference_leaves_vocabulary_witness:
  "fst (answer demo_nlp 1 ''Hello World !'' demo_brain) = Inr ''Hello.'' \<and>
   snd (answer demo_nlp 1 ''Hello World !'' demo_brain) = demo_brain \<and>
   tags (vocabulary (snd (answer demo_nlp 1 ''Hello World !'' demo_brain))) = tags demo_vocabulary"
proof -
  have "fst (answer demo_nlp 1 ''Hello World !'' demo_brain) = Inr ''Hello.''"
    by code_simp
  with inference_leaves_vocabulary[of demo_nlp "''Hello World !''" demo_vocabulary 1 1 "[]" demo_brain]
  show ?thesis by (simp add: demo_brain_def)
qed

subsection \<open>Ingestion keeps the global stem list in step with the tags\<close>

lemma keys_update_present:
  "map_of al k = Some e \<Longrightarrow> map fst (AList.update k v al) = map fst al"
  by (simp add: update_keys) (metis domI dom_map_of_conv_image_fst image_set)

lemma tag_stem_set_update:
  "tag_stem_set (p\<lparr>tags := AList.update t e' (tags p)\<rparr>) =
     set (stems e') \<union> {w. \<exists>t' e. t' \<noteq> t \<and> map_of (tags p) t' = Some e \<and> w \<in> set (stems e)}"
proof (intro set_eqI iffI)
  fix w
  assume "w \<in> tag_stem_set (p\<lparr>tags := AList.update t e' (tags p)\<rparr>)"
  then obtain t' e where te: "((map_of (tags p))(t \<mapsto> e')) t' = Some e" "w \<in> set (stems e)"
    unfolding tag_stem_set_def by (auto simp: update_conv')
  show "w \<in> set (stems e') \<union> {w. \<exists>t' e. t' \<noteq> t \<and> map_of (tags p) t' = Some e \<and> w \<in> set (stems e)}"
  proof (cases "t' = t")
    case True
    with te show ?thesis by simp
  next
    case False
    with te have "map_of (tags p) t' = Some e" by simp
    with False te(2) show ?thesis by blast
  qed
next
  fix w
  assume "w \<in> set (stems e') \<union> {w. \<exists>t' e. t' \<noteq> t \<and> map_of (tags p) t' = Some e \<and> w \<in> set (stems e)}"
  then consider "w \<in> set (stems e')"
    | t' e where "t' \<noteq> t" "map_of (tags p) t' = Some e" "w \<in> set (stems e)"
    by blast
  then show "w \<in> tag_stem_set (p\<lparr>tags := AList.update t e' (tags p)\<rparr>)"
  proof cases
    case 1
    have "map_of (AList.update t e' (tags p)) t = Some e'" by (simp add: update_conv')
    with 1 show ?thesis unfolding tag_stem_set_def by (simp del: fun_upd_apply) blast
  next
    case 2
    then have "map_of (AList.update t e' (tags p)) t' = Some e" by (simp add: update_conv')
    with 2(3) show ?thesis unfolding tag_stem_set_def
      by (simp del: fun_upd_apply) blast
  qed
qed

lemma tag_stem_set_split:
  assumes "map_of (tags p) t = Some e"
  shows "tag_stem_set p =
     set (stems e) \<union> {w. \<exists>t' e. t' \<noteq> t \<and> map_of (tags p) t' = Some e \<and> w \<in> set (stems e)}"
proof -
  have "map_of (AList.update t e (tags p)) = map_of (tags p)"
    using assms by (simp add: update_conv' fun_upd_idem)
  then have "tag_stem_set p = tag_stem_set (p\<lparr>tags := AList.update t e (tags p)\<rparr>)"
    unfolding tag_stem_set_def by simp
  then show ?thesis by (simp only: tag_stem_set_update)
qed

lemma tag_stem_set_new:
  assumes "map_of (tags p) t = None"
  shows "tag_stem_set (p\<lparr>tags := AList.update t e' (tags p)\<rparr>) = set (stems e') \<union> tag_stem_set p"
proof -
  have "\<And>t' e. map_of (tags p) t' = Some e \<Longrightarrow> t' \<noteq> t"
    using assms by auto
  then have "{w. \<exists>t' e. t' \<noteq> t \<and> map_of (tags p) t' = Some e \<and> w \<in> set (stems e)} = tag_stem_set p"
    unfolding tag_stem_set_def by blast
  then show ?thesis by (simp only: tag_stem_set_update)
qed

lemma tag_stem_set_all_stems_update [simp]:
  "tag_stem_set (p\<lparr>all_stems := xs\<rparr>) = tag_stem_set p"
  by (simp add: tag_stem_set_def)

lemma add_stem_effect:
  assumes "map_of (tags p) t = Some e"
  shows "tag_stem_set (add_stem t w p) = insert w (tag_stem_set p)"
    and "set (all_stems (add_stem t w p)) = insert w (set (all_stems p))"
    and "map fst (tags (add_stem t w p)) = map fst (tags p)"
    and "\<exists>e'. map_of (tags (add_stem t w p)) t = Some e'"
proof -
  let ?rest = "{w. \<exists>t' e. t' \<noteq> t \<and> map_of (tags p) t' = Some e \<and> w \<in> set (stems e)}"
  have sp: "tag_stem_set p = set (stems e) \<union> ?rest"
    by (rule tag_stem_set_split[OF assms])
  show "tag_stem_set (add_stem t w p) = insert w (tag_stem_set p)"
  proof (cases "w \<in> set (stems e)")
    case True
    then have "w \<in> tag_stem_set p" using sp by blast
    then have "insert w (tag_stem_set p) = tag_stem_set p" by blast
    with assms True show ?thesis by (simp add: add_stem_def Let_def)
  next
    case False
    have "tag_stem_set (p\<lparr>tags := AList.update t (e\<lparr>stems := stems e @ [w]\<rparr>) (tags p)\<rparr>)
          = set (stems e @ [w]) \<union> ?rest"
      by (simp only: tag_stem_set_update) simp
    also have "\<dots> = insert w (tag_stem_set p)"
      unfolding sp by simp
    finally show ?thesis using assms False by (simp add: add_stem_def Let_def)
  qed
  show "set (all_stems (add_stem t w p)) = insert w (set (all_stems p))"
    using assms by (auto simp: add_stem_def Let_def)
  show "map fst (tags (add_stem t w p)) = map fst (tags p)"
    using assms by (simp add: add_stem_def Let_def keys_update_present)
  show "\<exists>e'. map_of (tags (add_stem t w p)) t = Some e'"
    using assms by (simp add: add_stem_def Let_def update_conv')
qed

lemma fold_add_stem_effect:
  "map_of (tags p) t = Some e \<Longrightarrow>
     tag_stem_set (fold (add_stem t) ws p) = tag_stem_set p \<union> set ws \<and>
     set (all_stems (fold (add_stem t) ws p)) = set (all_stems p) \<union> set ws \<and>
     map fst (tags (fold (add_stem t) ws p)) = map fst (tags p)"
proof (induction ws arbitrary: p e)
  case Nil
  then show ?case by simp
next
  case (Cons w ws)
  from add_stem_effect(4)[OF Cons.prems, of w] obtain e'
    where e': "map_of (tags (add_stem t w p)) t = Some e'" by blast
  from Cons.IH[OF e'] add_stem_effect(1-3)[OF Cons.prems, of w]
  show ?case by simp
qed

lemma set_answers_effect:
  assumes "map_of (tags p) t = Some e"
  shows "\<exists>p'. set_answers t as p = (Inr (), p') \<and> tag_stem_set p' = tag_stem_set p \<and>
           all_stems p' = all_stems p \<and> map fst (tags p') = map fst (tags p) \<and>
           (\<exists>e'. map_of (tags p') t = Some e')"
proof -
  let ?p' = "p\<lparr>tags := AList.update t (e\<lparr>answers := answers e @ as\<rparr>) (tags p)\<rparr>"
  have "tag_stem_set ?p' = tag_stem_set p"
    unfolding tag_stem_set_update tag_stem_set_split[OF assms] by simp
  with assms show ?thesis
    by (simp add: set_answers_def keys_update_present update_conv')
qed

lemma set_stems_effect:
  assumes "map_of (tags p) t = Some e"
  shows "\<exists>p'. set_stems t ls p = (Inr (), p') \<and>
           tag_stem_set p' = tag_stem_set p \<union> set (concat ls) \<and>
           set (all_stems p') = set (all_stems p) \<union> set (concat ls) \<and>
           map fst (tags p') = map fst (tags p)"
  using assms fold_add_stem_effect[OF assms, of "concat ls"]
  by (simp add: set_stems_def get_stems_def)

lemma create_tag_effect:
  assumes p1_def: "p1 = (if t \<notin> set (get_all_tags p)
                    then p\<lparr>tags := AList.update t \<lparr>stems = [], answers = []\<rparr> (tags p)\<rparr>
                    else p)"
  shows "tag_stem_set p1 = tag_stem_set p" and "all_stems p1 = all_stems p"
    and "\<exists>e. map_of (tags p1) t = Some e"
    and "distinct (map fst (tags p)) \<Longrightarrow> distinct (map fst (tags p1))"
proof -
  show "tag_stem_set p1 = tag_stem_set p"
  proof (cases "t \<in> set (get_all_tags p)")
    case True
    then show ?thesis by (simp add: p1_def)
  next
    case False
    then have "map_of (tags p) t = None"
      by (simp add: get_all_tags_def map_of_eq_None_iff)
    from tag_stem_set_new[OF this, of "\<lparr>stems = [], answers = []\<rparr>"] False
    show ?thesis by (simp add: p1_def)
  qed
  show "all_stems p1 = all_stems p" by (simp add: p1_def)
  show "\<exists>e. map_of (tags p1) t = Some e"
  proof (cases "t \<in> set (get_all_tags p)")
    case True
    then have "map_of (tags p) t \<noteq> None"
      by (simp add: get_all_tags_def map_of_eq_None_iff)
    with True show ?thesis by (auto simp: p1_def)
  next
    case False
    then show ?thesis by (simp add: p1_def update_conv')
  qed
  show "distinct (map fst (tags p)) \<Longrightarrow> distinct (map fst (tags p1))"
    by (simp add: p1_def distinct_update)
qed

lemma set_intent_consistent:
  assumes "set_intent n i p = (Inr u, p')" and "consistent p"
  shows "consistent p'"
proof -
  from assms(1) obtain t where t: "tag i = Some t"
    by (cases "tag i") (auto simp: set_intent_def)
  define p1 where "p1 = (if t \<notin> set (get_all_tags p)
                    then p\<lparr>tags := AList.update t \<lparr>stems = [], answers = []\<rparr> (tags p)\<rparr>
                    else p)"
  note c = create_tag_effect[OF p1_def]
  from assms(1) t obtain rs where rs: "responses i = Some rs"
    by (cases "responses i") (auto simp: set_intent_def Let_def)
  from c(3) obtain e1 where e1: "map_of (tags p1) t = Some e1" by blast
  from set_answers_effect[OF e1, of rs] obtain p2 e2 where
    p2: "set_answers t rs p1 = (Inr (), p2)" "tag_stem_set p2 = tag_stem_set p1"
        "all_stems p2 = all_stems p1" "map fst (tags p2) = map fst (tags p1)"
        "map_of (tags p2) t = Some e2"
    by blast
  from assms(1) t rs p2(1) obtain ps where ps: "patterns i = Some ps"
    by (cases "patterns i") (auto simp: set_intent_def Let_def p1_def)
  from set_stems_effect[OF p2(5), of "map (stemming n) ps"] obtain p3 where
    p3: "set_stems t (map (stemming n) ps) p2 = (Inr (), p3)"
        "tag_stem_set p3 = tag_stem_set p2 \<union> set (concat (map (stemming n) ps))"
        "set (all_stems p3) = set (all_stems p2) \<union> set (concat (map (stemming n) ps))"
        "map fst (tags p3) = map fst (tags p2)"
    by blast
  have "set_intent n i p = (Inr (), p3)"
    using t rs ps p2(1) p3(1) by (simp add: set_intent_def Let_def p1_def)
  with assms(1) have "p' = p3" by simp
  with assms(2) c p2 p3 show ?thesis
    by (simp add: consistent_def)
qed

lemma set_intents_consistent:
  "set_intents n is p = (Inr u, p') \<Longrightarrow> consistent p \<Longrightarrow> consistent p'"
proof (induction "is" arbitrary: p)
  case Nil
  then show ?case by simp
next
  case (Cons i "is")
  show ?case
  proof (cases "truthy i")
    case False
    with Cons show ?thesis by simp
  next
    case True
    obtain r p1 where s: "set_intent n i p = (r, p1)" by (cases "set_intent n i p")
    show ?thesis
    proof (cases r)
      case (Inl e)
      with Cons.prems True s show ?thesis by simp
    next
      case (Inr v)
      with set_intent_consistent[of n i p v p1] s Cons.prems have "consistent p1" by simp
      moreover from Cons.prems True s Inr have "set_intents n is p1 = (Inr u, p')" by simp
      ultimately show ?thesis by (rule Cons.IH[rotated])
    qed
  qed
qed

subsection \<open>The finalized vocabulary\<close>

lemma sorted_set_idem: "sorted_set (sorted_set xs) = sorted_set xs"
  by (simp add: sorted_set_def distinct_remdups_id sort_key_id_if_sorted)

lemma set_sorted_set [simp]: "set (sorted_set xs) = set xs"
  by (simp add: sorted_set_def)

lemma sorted_set_eq: "sorted_set xs = sorted_list_of_set (set xs)"
  by (simp add: sorted_set_def sorted_list_of_set_sort_remdups)

lemma sort_entry_idem: "sort_entry (sort_entry e) = sort_entry e"
  by (simp add: sort_entry_def sorted_set_idem)

lemma sort_tag_stems_map_of:
  "map_of (sort_tag_stems t ts) k =
     (if k = t then map_option sort_entry (map_of ts t) else map_of ts k)"
  by (cases "map_of ts t") (simp_all add: sort_tag_stems_def update_conv' sort_entry_def)

lemma sort_tag_stems_keys: "map fst (sort_tag_stems t ts) = map fst ts"
  by (cases "map_of ts t") (simp_all add: sort_tag_stems_def keys_update_present)

lemma fold_sort_tag_stems:
  "map_of (fold sort_tag_stems ks ts) k =
     (if k \<in> set ks then map_option sort_entry (map_of ts k) else map_of ts k) \<and>
   map fst (fold sort_tag_stems ks ts) = map fst ts"
proof (induction ks arbitrary: ts)
  case Nil
  then show ?case by simp
next
  case (Cons a ks)
  have "map_option sort_entry (map_option sort_entry (map_of ts a)) = map_option sort_entry (map_of ts a)"
    by (cases "map_of ts a") (simp_all add: sort_entry_idem)
  with Cons[of "sort_tag_stems a ts"] show ?case
    by (simp add: sort_tag_stems_map_of sort_tag_stems_keys)
qed

lemma sort_all_stems_effect:
  "map_of (tags (sort_all_stems p)) k = map_option sort_entry (map_of (tags p) k)"
  "map fst (tags (sort_all_stems p)) = map fst (tags p)"
  "all_stems (sort_all_stems p) = sorted_set (all_stems p)"
proof -
  have "k \<notin> set (map fst (tags p)) \<Longrightarrow> map_of (tags p) k = None"
    by (simp add: map_of_eq_None_iff)
  then show "map_of (tags (sort_all_stems p)) k = map_option sort_entry (map_of (tags p) k)"
    using fold_sort_tag_stems[of "map fst (tags p)" "tags p" k]
    by (auto simp: sort_all_stems_def Let_def)
  show "map fst (tags (sort_all_stems p)) = map fst (tags p)"
    using fold_sort_tag_stems[of "map fst (tags p)" "tags p" k]
    by (simp add: sort_all_stems_def Let_def)
  show "all_stems (sort_all_stems p) = sorted_set (all_stems p)"
    by (simp add: sort_all_stems_def Let_def get_all_stems_def)
qed

lemma tag_stem_set_sort_all_stems: "tag_stem_set (sort_all_stems p) = tag_stem_set p"
proof (intro set_eqI iffI)
  fix w assume "w \<in> tag_stem_set (sort_all_stems p)"
  then obtain t e where "map_option sort_entry (map_of (tags p) t) = Some e" "w \<in> set (stems e)"
    unfolding tag_stem_set_def by (auto simp: sort_all_stems_effect(1))
  then obtain e0 where "map_of (tags p) t = Some e0" "w \<in> set (stems e0)"
    by (cases "map_of (tags p) t") (auto simp: sort_entry_def)
  then show "w \<in> tag_stem_set p" unfolding tag_stem_set_def by blast
next
  fix w assume "w \<in> tag_stem_set p"
  then obtain t e where te: "map_of (tags p) t = Some e" "w \<in> set (stems e)"
    unfolding tag_stem_set_def by blast
  then have "map_of (tags (sort_all_stems p)) t = Some (sort_entry e)" "w \<in> set (stems (sort_entry e))"
    by (simp_all add: sort_all_stems_effect(1) sort_entry_def)
  then show "w \<in> tag_stem_set (sort_all_stems p)" unfolding tag_stem_set_def by blast
qed

lemma tag_stem_set_distinct:
  assumes "distinct (map fst (tags p))"
  shows "tag_stem_set p = (\<Union>(t, e) \<in> set (tags p). set (stems e))"
  unfolding tag_stem_set_def using assms by (auto simp: map_of_eq_Some_iff)

lemma consistent_empty: "consistent empty_patterns"
  by (simp add: consistent_def empty_patterns_def tag_stem_set_def)

lemma finalized_stems:
  assumes "consistent p"
  shows "all_stems (sort_all_stems p) =
           sorted_list_of_set (\<Union>(t, e) \<in> set (tags (sort_all_stems p)). set (stems e))"
    and "consistent (sort_all_stems p)"
proof -
  have d: "distinct (map fst (tags (sort_all_stems p)))"
    using assms by (simp add: sort_all_stems_effect(2) consistent_def)
  have "all_stems (sort_all_stems p) = sorted_list_of_set (tag_stem_set p)"
    using assms by (simp add: sort_all_stems_effect(3) sorted_set_eq consistent_def)
  also have "tag_stem_set p = tag_stem_set (sort_all_stems p)"
    by (simp add: tag_stem_set_sort_all_stems)
  finally show "all_stems (sort_all_stems p) =
           sorted_list_of_set (\<Union>(t, e) \<in> set (tags (sort_all_stems p)). set (stems e))"
    by (simp only: tag_stem_set_distinct[OF d])
  show "consistent (sort_all_stems p)"
    using assms d
    by (simp add: consistent_def tag_stem_set_sort_all_stems sort_all_stems_effect(3))
qed

text \<open>
  Claim C1. When \<open>convert_intents\<close> on a fresh \<open>Patterns()\<close> gets as far as saving the
  vocabulary, the saved global stem list is the sorted list, without duplicates, of the
  union of the stems lists of all tags; it is sorted and has no duplicates, and the
  vocabulary in memory is the saved one.
\<close>

theorem convert_intents_stems_sorted_union:
  assumes "saved (convert_intents n draw file empty_patterns) = Some p"
  shows "all_stems p = sorted_list_of_set (\<Union>(t, e) \<in> set (tags p). set (stems e)) \<and>
         sorted (all_stems p) \<and> distinct (all_stems p) \<and>
         memory (convert_intents n draw file empty_patterns) = p"
proof -
  obtain r p1 where pr: "parse_intents_file n file empty_patterns = (r, p1)"
    by (cases "parse_intents_file n file empty_patterns")
  from assms pr obtain u where r: "r = Inr u"
    by (cases r) (auto simp: convert_intents_def)
  from assms pr r have p: "p = sort_all_stems p1"
    and m: "memory (convert_intents n draw file empty_patterns) = p"
    by (auto simp: convert_intents_def Let_def)
  from pr r obtain intents where "file = Some intents"
    and "set_intents n intents empty_patterns = (Inr u, p1)"
    by (cases "file") (auto simp: parse_intents_file_def)
  then have "consistent p1"
    using set_intents_consistent consistent_empty by blast
  from finalized_stems(1)[OF this]
  have eq: "all_stems p = sorted_list_of_set (\<Union>(t, e) \<in> set (tags p). set (stems e))"
    by (simp only: p)
  have "all_stems p = sorted_set (all_stems p1)"
    by (simp add: p sort_all_stems_effect(3))
  then have "sorted (all_stems p)" "distinct (all_stems p)"
    by (simp_all add: sorted_set_def)
  with eq m show ?thesis by simp
qed

theorem convert_intents_stems_sorted_union_witness:
  "saved (convert_intents demo_nlp demo_draw (Some demo_catalog) empty_patterns) = Some demo_vocabulary \<and>
   all_stems demo_vocabulary =
     sorted_list_of_set (\<Union>(t, e) \<in> set (tags demo_vocabulary). set (stems e)) \<and>
   all_stems demo_vocabulary = [''bye'', ''hello'', ''hi'', ''monde''] \<and>
   sorted (all_stems demo_vocabulary) \<and> distinct (all_stems demo_vocabulary)"
proof -
  have h: "saved (convert_intents demo_nlp demo_draw (Some demo_catalog) empty_patterns) = Some demo_vocabulary"
    by code_simp
  have a: "all_stems demo_vocabulary = [''bye'', ''hello'', ''hi'', ''monde'']"
    by (simp add: demo_vocabulary_def)
  from convert_intents_stems_sorted_union[OF h] h a show ?thesis by simp
qed

subsection \<open>Malformed catalogs\<close>

lemma set_intent_error:
  assumes "set_intent n i p = (Inl e, p')"
  shows "e = KeyError ''tag'' \<and> tag i = None \<or>
         e = KeyError ''responses'' \<and> responses i = None \<or>
         e = KeyError ''patterns'' \<and> patterns i = None"
proof (cases "tag i")
  case None
  with assms show ?thesis by (simp add: set_intent_def)
next
  case (Some t)
  define p1 where "p1 = (if t \<notin> set (get_all_tags p)
                    then p\<lparr>tags := AList.update t \<lparr>stems = [], answers = []\<rparr> (tags p)\<rparr>
                    else p)"
  note c = create_tag_effect[OF p1_def]
  show ?thesis
  proof (cases "responses i")
    case None
    with assms Some show ?thesis by (simp add: set_intent_def Let_def)
  next
    case rs: (Some rs)
    from c(3) obtain e1 where e1: "map_of (tags p1) t = Some e1" by blast
    from set_answers_effect[OF e1, of rs] obtain p2 e2 where
      p2: "set_answers t rs p1 = (Inr (), p2)" "map_of (tags p2) t = Some e2"
      by blast
    show ?thesis
    proof (cases "patterns i")
      case None
      with assms Some rs p2(1) show ?thesis by (simp add: set_intent_def Let_def p1_def)
    next
      case ps: (Some ps)
      from set_stems_effect[OF p2(2), of "map (stemming n) ps"] obtain p3 where
        "set_stems t (map (stemming n) ps) p2 = (Inr (), p3)" by blast
      with assms Some rs ps p2(1) show ?thesis by (simp add: set_intent_def Let_def p1_def)
    qed
  qed
qed

lemma set_intent_missing_field:
  assumes "tag i = None \<or> responses i = None"
  shows "fst (set_intent n i p) = Inl (KeyError ''tag'') \<or>
         fst (set_intent n i p) = Inl (KeyError ''responses'')"
proof (cases "tag i")
  case None
  then show ?thesis by (simp add: set_intent_def)
next
  case (Some t)
  with assms have "responses i = None" by simp
  with Some show ?thesis by (simp add: set_intent_def Let_def)
qed

lemma set_intents_missing_field:
  assumes "i \<in> set is" and "truthy i" and "tag i = None \<or> responses i = None"
  shows "fst (set_intents n is p) \<in>
           {Inl (KeyError ''tag''), Inl (KeyError ''responses''), Inl (KeyError ''patterns'')}"
  using assms(1)
proof (induction "is" arbitrary: p)
  case Nil
  then show ?case by simp
next
  case (Cons j js)
  show ?case
  proof (cases "truthy j")
    case False
    with assms(2) have "j \<noteq> i" by auto
    with Cons False show ?thesis by simp
  next
    case True
    obtain r p1 where s: "set_intent n j p = (r, p1)" by (cases "set_intent n j p")
    show ?thesis
    proof (cases r)
      case (Inl e)
      from set_intent_error[of n j p e p1] s Inl True show ?thesis by auto
    next
      case (Inr u)
      have "j \<noteq> i"
      proof
        assume "j = i"
        with set_intent_missing_field[OF assms(3), of n p] s Inr show False by simp
      qed
      with Cons.prems have "i \<in> set js" by simp
      from Cons.IH[OF this, of p1] s Inr True show ?thesis by simp
    qed
  qed
qed

text \<open>
  Claim C5, amended. If some record of the catalog that holds at least one key lacks the
  key \<open>tag\<close> or the key \<open>responses\<close>, \<open>convert_intents\<close> raises KeyError (for \<open>tag\<close>,
  for \<open>responses\<close> or, from an earlier record, for \<open>patterns\<close>) and \<open>_save\<close> is not
  reached: the build aborts and no snapshot is written.
\<close>

theorem missing_field_aborts_unsaved:
  assumes "i \<in> set intents" and "truthy i" and "tag i = None \<or> responses i = None"
  shows "returned (convert_intents n draw (Some intents) p) \<in>
           {Inl (KeyError ''tag''), Inl (KeyError ''responses''), Inl (KeyError ''patterns'')} \<and>
         saved (convert_intents n draw (Some intents) p) = None"
proof -
  obtain r p1 where s: "set_intents n intents p = (r, p1)" by (cases "set_intents n intents p")
  from set_intents_missing_field[OF assms, of n p] s
  obtain e where "r = Inl e" "e \<in> {KeyError ''tag'', KeyError ''responses'', KeyError ''patterns''}"
    by auto
  with s show ?thesis
    by (auto simp: convert_intents_def parse_intents_file_def)
qed


theorem missing_field_aborts_unsaved_witness:
  "broken_intent \<in> set [hello_intent, broken_intent] \<and> truthy broken_intent \<and>
   (tag broken_intent = None \<or> responses broken_intent = None) \<and>
   returned (convert_intents demo_nlp demo_draw (Some [hello_intent, broken_intent]) empty_patterns)
     = Inl (KeyError ''responses'') \<and>
   saved (convert_intents demo_nlp demo_draw (Some [hello_intent, broken_intent]) empty_patterns)
     = None \<and>
   unknown_key_intent \<in> set [noanswer_intent, unknown_key_intent] \<and> truthy unknown_key_intent \<and>
   (tag unknown_key_intent = None \<or> responses unknown_key_intent = None) \<and>
   returned (convert_intents demo_nlp demo_draw (Some [noanswer_intent, unknown_key_intent])
       empty_patterns) = Inl (KeyError ''tag'') \<and>
   saved (convert_intents demo_nlp demo_draw (Some [noanswer_intent, unknown_key_intent])
       empty_patterns) = None"
proof -
  have a: "broken_intent \<in> set [hello_intent, broken_intent]" by simp
  have b: "truthy broken_intent" by (simp add: truthy_def broken_intent_def)
  have c: "tag broken_intent = None \<or> responses broken_intent = None"
    by (simp add: broken_intent_def)
  have d: "returned (convert_intents demo_nlp demo_draw (Some [hello_intent, broken_intent])
      empty_patterns) = Inl (KeyError ''responses'')"
    by code_simp
  have a': "unknown_key_intent \<in> set [noanswer_intent, unknown_key_intent]" by simp
  have b': "truthy unknown_key_intent" by (simp add: truthy_def unknown_key_intent_def)
  have c': "tag unknown_key_intent = None \<or> responses unknown_key_intent = None"
    by (simp add: unknown_key_intent_def)
  have d': "returned (convert_intents demo_nlp demo_draw (Some [noanswer_intent, unknown_key_intent])
      empty_patterns) = Inl (KeyError ''tag'')"
    by code_simp
  from missing_field_aborts_unsaved[OF a b c, of demo_nlp demo_draw empty_patterns]
    missing_field_aborts_unsaved[OF a' b' c', of demo_nlp demo_draw empty_patterns]
    a b c d a' b' c' d'
  show ?thesis by simp
qed

text \<open>
  Claim C5 as stated fails on the code in three ways. A catalog that never defines
  \<open>noanswer\<close> does not make ingestion fail: it is saved and gives training data. A
  record without any key, which has neither \<open>tag\<close> nor \<open>responses\<close>, is skipped by
  \<open>if intent:\<close> and the build succeeds. And when a later record raises,
  \<open>self._patterns\<close> keeps the tags and stems of the records before it, with the stems
  not yet sorted.
\<close>

theorem catalog_without_noanswer_accepted:
  "returned (convert_intents demo_nlp demo_draw (Some [hello_intent]) empty_patterns) =
     Inr ([[False, True, False], [True, False, False], [False, False, True]],
          [[True], [True], [True]]) \<and>
   saved (convert_intents demo_nlp demo_draw (Some [hello_intent]) empty_patterns) =
     Some \<lparr>tags = [(''hello'', \<lparr>stems = [''hello'', ''hi'', ''monde''],
                                answers = [''Hey'', ''Hello.'']\<rparr>)],
           all_stems = [''hello'', ''hi'', ''monde'']\<rparr> \<and>
   tag empty_intent = None \<and> responses empty_intent = None \<and>
   returned (convert_intents demo_nlp demo_draw
       (Some [empty_intent, noanswer_intent, hello_intent]) empty_patterns) =
     Inr ([[False, True, False], [True, False, False], [False, False, True]],
          [[True, False], [True, False], [True, False]]) \<and>
   memory (convert_intents demo_nlp demo_draw (Some [hello_intent, broken_intent]) empty_patterns) =
     \<lparr>tags = [(''hello'', \<lparr>stems = [''hello'', ''monde'', ''hi''],
                          answers = [''Hey'', ''Hello.'']\<rparr>),
              (''thanks'', \<lparr>stems = [], answers = []\<rparr>)],
      all_stems = [''hello'', ''monde'', ''hi'']\<rparr>"
proof -
  have a: "returned (convert_intents demo_nlp demo_draw (Some [hello_intent]) empty_patterns) =
     Inr ([[False, True, False], [True, False, False], [False, False, True]],
          [[True], [True], [True]])"
    by code_simp
  have b: "saved (convert_intents demo_nlp demo_draw (Some [hello_intent]) empty_patterns) =
     Some \<lparr>tags = [(''hello'', \<lparr>stems = [''hello'', ''hi'', ''monde''],
                                answers = [''Hey'', ''Hello.'']\<rparr>)],
           all_stems = [''hello'', ''hi'', ''monde'']\<rparr>"
    by code_simp
  have c: "tag empty_intent = None \<and> responses empty_intent = None"
    by (simp add: empty_intent_def)
  have d: "returned (convert_intents demo_nlp demo_draw
       (Some [empty_intent, noanswer_intent, hello_intent]) empty_patterns) =
     Inr ([[False, True, False], [True, False, False], [False, False, True]],
          [[True, False], [True, False], [True, False]])"
    by code_simp
  have e: "memory (convert_intents demo_nlp demo_draw (Some [hello_intent, broken_intent])
       empty_patterns) =
     \<lparr>tags = [(''hello'', \<lparr>stems = [''hello'', ''monde'', ''hi''],
                          answers = [''Hey'', ''Hello.'']\<rparr>),
              (''thanks'', \<lparr>stems = [], answers = []\<rparr>)],
      all_stems = [''hello'', ''monde'', ''hi'']\<rparr>"
    by code_simp
  from a b c d e show ?thesis by simp
qed

text \<open>
  Conversely, a catalog file whose records, the empty ones apart, all
  have \<open>tag\<close>, \<open>responses\<close> and \<open>patterns\<close> is ingested and saved. On a vocabulary
  without the tag \<open>noanswer\<close> the fallback of \<open>choose_answer\<close> then raises
  AttributeError.
\<close>

lemma set_intents_well_formed:
  "(\<forall>i \<in> set is. truthy i \<longrightarrow> tag i \<noteq> None \<and> responses i \<noteq> None \<and> patterns i \<noteq> None) \<Longrightarrow>
     \<exists>p'. set_intents n is p = (Inr (), p')"
proof (induction "is" arbitrary: p)
  case Nil
  then show ?case by simp
next
  case (Cons i "is")
  show ?case
  proof (cases "truthy i")
    case False
    with Cons show ?thesis by simp
  next
    case True
    obtain r p1 where s: "set_intent n i p = (r, p1)" by (cases "set_intent n i p")
    show ?thesis
    proof (cases r)
      case (Inl e)
      with set_intent_error[of n i p e p1] s Cons.prems True show ?thesis by auto
    next
      case (Inr u)
      from Cons.IH[of p1] Cons.prems obtain p' where "set_intents n is p1 = (Inr (), p')"
        by auto
      with s Inr True show ?thesis by simp
    qed
  qed
qed

lemma well_formed_catalog_saved:
  assumes "\<forall>i \<in> set intents. truthy i \<longrightarrow>
             tag i \<noteq> None \<and> responses i \<noteq> None \<and> patterns i \<noteq> None"
  shows "\<exists>p'. saved (convert_intents n draw (Some intents) p) = Some p' \<and>
              memory (convert_intents n draw (Some intents) p) = p'"
proof -
  from set_intents_well_formed[OF assms, of n p] obtain p1 where
    "set_intents n intents p = (Inr (), p1)" by blast
  then show ?thesis
    by (simp add: convert_intents_def parse_intents_file_def Let_def)
qed

lemma fallback_without_noanswer:
  assumes "index < 0" and "''noanswer'' \<notin> fst ` set (tags p)"
  shows "fst (choose_answer r index p) = Inl AttributeError"
proof -
  from assms(2) have "map_of (tags p) ''noanswer'' = None"
    by (simp add: map_of_eq_None_iff)
  with assms(1) show ?thesis
    by (simp add: choose_answer_def get_tag_by_index_def get_answers_def)
qed

subsection \<open>Tokens and stop-words\<close>

text \<open>The characters of \<open>c\<close>, \<open>e\<close> with an acute accent (two bytes) and \<open>!\<close>.\<close>

lemma code_points_example:
  "code_points [CHR 0x63, CHR 0xC3, CHR 0xA9, CHR 0x21] =
     [[CHR 0x63], [CHR 0xC3, CHR 0xA9], [CHR 0x21]]"
  by (simp add: code_points_def continuation_def)

text \<open>
  Claim C6 fails on the code: the stop-word test of \<open>_stemming\<close> reads the token before
  it is lower-cased. With the stop-word \<open>le\<close>, the token \<open>le\<close> is discarded but the token
  \<open>Le\<close>, whose lower-cased form is that stop-word, is kept and its stem returned.
\<close>

theorem stemming_keeps_capitalised_stop_word:
  "lower demo_nlp ''Le'' \<in> set (stoplist demo_nlp) \<and>
   stemming demo_nlp ''le chat'' = [''chat''] \<and>
   stemming demo_nlp ''Le chat'' = [''le'', ''chat'']"
  by (simp add: stemming_def demo_nlp_def tokenize_def code_points_def continuation_def
        ascii_wordchar_def ascii_lower_def)

subsection \<open>Training data\<close>

lemma mset_shuffle_from:
  "i < length xs \<or> i = 0 \<Longrightarrow> mset (shuffle_from draw i xs) = mset xs"
proof (induction i arbitrary: xs)
  case 0
  then show ?case by simp
next
  case (Suc i)
  define j where "j = draw (Suc i) mod (Suc (Suc i))"
  have il: "Suc i < length xs" using Suc.prems by simp
  have "j < Suc (Suc i)" unfolding j_def by simp
  with il have jl: "j < length xs" by simp
  let ?ys = "xs[Suc i := xs ! j, j := xs ! Suc i]"
  have "mset ?ys = mset xs" using mset_swap[OF jl il] by simp
  moreover have "i < length ?ys" using il by simp
  ultimately show ?case using Suc.IH[of ?ys] by (simp add: j_def Let_def)
qed

lemma mset_shuffle: "mset (shuffle draw xs) = mset xs"
  unfolding shuffle_def by (rule mset_shuffle_from) (cases xs, auto)

lemma index_of_mem: "x \<in> set xs \<Longrightarrow> \<exists>k. index_of xs x = Some k"
  using index_of_None[of xs x] by (cases "index_of xs x") auto

lemma tag_rows_ok:
  assumes "t \<in> set all_tags"
  shows "set ss \<subseteq> set stems_all \<Longrightarrow>
         tag_rows all_tags stems_all t ss = Inr (map (row_of all_tags stems_all t) ss)"
proof (induction ss)
  case Nil
  then show ?case by simp
next
  case (Cons s ss)
  from Cons.prems obtain k where k: "index_of stems_all s = Some k"
    using index_of_mem[of s stems_all] by auto
  from assms obtain l where l: "index_of all_tags t = Some l"
    using index_of_mem[of t all_tags] by auto
  from Cons k l show ?case by (simp add: row_of_def)
qed

lemma all_rows_ok:
  "(\<And>t. t \<in> set ts \<Longrightarrow> t \<in> set all_tags \<and>
        (\<exists>e. map_of (tags p) t = Some e \<and> set (stems e) \<subseteq> set (all_stems p))) \<Longrightarrow>
   all_rows p all_tags ts =
     Inr (concat (map (\<lambda>t. map (row_of all_tags (all_stems p) t) (stems_of p t)) ts))"
proof (induction ts)
  case Nil
  then show ?case by simp
next
  case (Cons t ts)
  from Cons.prems[of t] obtain e where e: "t \<in> set all_tags" "map_of (tags p) t = Some e"
    "set (stems e) \<subseteq> set (all_stems p)" by auto
  have "all_rows p all_tags ts =
     Inr (concat (map (\<lambda>t. map (row_of all_tags (all_stems p) t) (stems_of p t)) ts))"
    using Cons.prems by (intro Cons.IH) auto
  with e tag_rows_ok[OF e(1) e(3)] show ?case
    by (simp add: get_stems_def get_all_stems_def stems_of_def)
qed

lemma consistent_rows:
  assumes "consistent p"
  shows "all_rows p (get_all_tags p) (get_all_tags p) =
     Inr (concat (map (\<lambda>t. map (row_of (get_all_tags p) (all_stems p) t) (stems_of p t))
                   (get_all_tags p)))"
proof (rule all_rows_ok)
  fix t assume "t \<in> set (get_all_tags p)"
  then have "t \<in> fst ` set (tags p)" by (simp add: get_all_tags_def)
  then obtain e where e: "map_of (tags p) t = Some e"
    by (cases "map_of (tags p) t") (auto simp: map_of_eq_None_iff)
  then have "set (stems e) \<subseteq> tag_stem_set p" unfolding tag_stem_set_def by blast
  with assms e \<open>t \<in> set (get_all_tags p)\<close>
  show "t \<in> set (get_all_tags p) \<and>
        (\<exists>e. map_of (tags p) t = Some e \<and> set (stems e) \<subseteq> set (all_stems p))"
    by (simp add: consistent_def)
qed

lemma stems_of_entry:
  "distinct (map fst (tags p)) \<Longrightarrow> (t, e) \<in> set (tags p) \<Longrightarrow> stems_of p t = stems e"
  by (simp add: stems_of_def)

lemma sum_stems_sorted_tags:
  assumes "distinct (map fst (tags p))"
  shows "(\<Sum>t\<leftarrow>get_all_tags p. length (stems_of p t)) = (\<Sum>(t, e)\<leftarrow>tags p. length (stems e))"
proof -
  let ?f = "\<lambda>t. length (stems_of p t)"
  have "sum_list (map ?f (get_all_tags p)) = sum_mset (image_mset ?f (mset (get_all_tags p)))"
    by (metis mset_map sum_mset_sum_list)
  also have "\<dots> = sum_mset (image_mset ?f (mset (map fst (tags p))))"
    by (simp add: get_all_tags_def)
  also have "\<dots> = sum_list (map ?f (map fst (tags p)))"
    by (metis mset_map sum_mset_sum_list)
  also have "\<dots> = sum_list (map (\<lambda>(t, e). length (stems e)) (tags p))"
    unfolding map_map
    by (rule arg_cong[where f = sum_list], rule map_cong)
      (auto simp: stems_of_entry[OF assms])
  finally show ?thesis .
qed

lemma row_of_positions:
  assumes "t \<in> set all_tags" and "s \<in> set stems_all"
  shows "\<exists>k l. k < length stems_all \<and> stems_all ! k = s \<and> (\<forall>j<k. stems_all ! j \<noteq> s) \<and>
           l < length all_tags \<and> all_tags ! l = t \<and>
           row_of all_tags stems_all t s =
             ((replicate (length stems_all) False)[k := True],
              (replicate (length all_tags) False)[l := True])"
proof -
  from assms obtain k l where kl: "index_of stems_all s = Some k" "index_of all_tags t = Some l"
    using index_of_mem[of s stems_all] index_of_mem[of t all_tags] by auto
  from index_of_Some[OF kl(1)] index_of_Some[OF kl(2)] kl show ?thesis
    by (auto simp: row_of_def)
qed

lemma rows_length:
  "length (concat (map (\<lambda>t. map (f t) (g t)) ts)) = (\<Sum>t\<leftarrow>ts. length (g t))"
  by (induction ts) simp_all

lemma rows_member:
  "r \<in> set (concat (map (\<lambda>t. map (f t) (g t)) ts)) \<Longrightarrow>
     \<exists>t s. t \<in> set ts \<and> s \<in> set (g t) \<and> r = f t s"
  by (induction ts) auto

lemma rows_memberI:
  "t \<in> set ts \<Longrightarrow> s \<in> set (g t) \<Longrightarrow> f t s \<in> set (concat (map (\<lambda>t. map (f t) (g t)) ts))"
  by (induction ts) auto

lemma make_training_data_shuffled:
  assumes "all_rows p (get_all_tags p) (get_all_tags p) = Inr rows" and "rows \<noteq> []"
  shows "make_training_data draw p = Inr (map fst (shuffle draw rows), map snd (shuffle draw rows))"
proof -
  have "length (shuffle draw rows) = length rows"
    using mset_shuffle[of draw rows] by (rule mset_eq_length)
  with assms(2) have "shuffle draw rows \<noteq> []" by (cases "shuffle draw rows") simp_all
  with assms(1) show ?thesis by (simp add: make_training_data_def Let_def)
qed

lemma training_row_shape:
  assumes "consistent p" and "r \<in> set (concat (map (\<lambda>t. map (row_of (get_all_tags p) (all_stems p) t) (stems_of p t)) (get_all_tags p)))"
  shows "\<exists>t e s k l.
          (t, e) \<in> set (tags p) \<and> s \<in> set (stems e) \<and>
          k < length (all_stems p) \<and> all_stems p ! k = s \<and>
          l < length (tags p) \<and> get_all_tags p ! l = t \<and>
          fst r = (replicate (length (all_stems p)) False)[k := True] \<and>
          snd r = (replicate (length (tags p)) False)[l := True]"
proof -
  let ?T = "get_all_tags p" and ?A = "all_stems p"
  have c: "set ?A = tag_stem_set p" using assms(1) by (simp add: consistent_def)
  have lT: "length ?T = length (tags p)" by (simp add: get_all_tags_def)
  from rows_member[OF assms(2)] obtain t s where
    ts: "t \<in> set ?T" "s \<in> set (stems_of p t)" "r = row_of ?T ?A t s"
    by blast
  from ts(2) obtain e where e: "map_of (tags p) t = Some e" "s \<in> set (stems e)"
    by (cases "map_of (tags p) t") (simp_all add: stems_of_def)
  from e(1) have mem: "(t, e) \<in> set (tags p)" by (rule map_of_SomeD)
  from e have "s \<in> tag_stem_set p" unfolding tag_stem_set_def by blast
  then have "s \<in> set ?A" by (simp only: c)
  from row_of_positions[OF ts(1) this] obtain k l where
    kl: "k < length ?A" "?A ! k = s" "l < length ?T" "?T ! l = t"
      "row_of ?T ?A t s = ((replicate (length ?A) False)[k := True],
                           (replicate (length ?T) False)[l := True])"
    by blast
  from kl(5) ts(3) have xy: "fst r = (replicate (length ?A) False)[k := True]"
    "snd r = (replicate (length (tags p)) False)[l := True]"
    by (simp_all add: lT)
  have "(t, e) \<in> set (tags p) \<and> s \<in> set (stems e) \<and>
          k < length ?A \<and> ?A ! k = s \<and> l < length (tags p) \<and> ?T ! l = t \<and>
          fst r = (replicate (length ?A) False)[k := True] \<and>
          snd r = (replicate (length (tags p)) False)[l := True]"
    using mem e(2) kl(1-4) xy lT by simp
  then show ?thesis by blast
qed

lemma training_rows_nonempty:
  assumes "consistent p" and "all_stems p \<noteq> []"
  shows "concat (map (\<lambda>t. map (row_of (get_all_tags p) (all_stems p) t) (stems_of p t)) (get_all_tags p)) \<noteq> []"
proof -
  let ?T = "get_all_tags p" and ?A = "all_stems p"
  have c: "set ?A = tag_stem_set p" using assms(1) by (simp add: consistent_def)
  obtain w where "w \<in> set ?A" using assms(2) by (cases ?A) auto
  then have "w \<in> tag_stem_set p" by (simp only: c)
  then obtain t e where te: "map_of (tags p) t = Some e" "w \<in> set (stems e)"
    unfolding tag_stem_set_def by blast
  from te(1) have "(t, e) \<in> set (tags p)" by (rule map_of_SomeD)
  then have "t \<in> fst ` set (tags p)" by (rule rev_image_eqI) simp
  then have tT: "t \<in> set ?T" by (simp add: get_all_tags_def)
  from te have "w \<in> set (stems_of p t)" by (simp add: stems_of_def)
  have "row_of ?T ?A t w \<in> set (concat (map (\<lambda>t. map (row_of ?T ?A t) (stems_of p t)) ?T))"
    using tT \<open>w \<in> set (stems_of p t)\<close>
    by (rule rows_memberI[where f = "row_of (get_all_tags p) (all_stems p)" and g = "stems_of p"])
  then show ?thesis
    by (metis empty_iff list.set(1))
qed

text \<open>
  On a vocabulary whose global stem list agrees with its tags and holds at least one
  stem, \<open>_make_training_data\<close> returns two parallel lists with one example per tag and
  stem of the tag: the rows of all tags in a shuffled order, each with a feature vector
  true exactly at a position of its stem in the global list and a label vector true
  exactly at the position of its tag in the sorted tag list.
\<close>

lemma make_training_data_examples:
  assumes "consistent p" and "all_stems p \<noteq> []"
  shows "\<exists>xs ys. make_training_data draw p = Inr (xs, ys) \<and>
      length xs = (\<Sum>(t, e)\<leftarrow>tags p. length (stems e)) \<and> length ys = length xs \<and>
      mset (zip xs ys) =
        mset (concat (map (\<lambda>t. map (row_of (get_all_tags p) (all_stems p) t) (stems_of p t))
                       (get_all_tags p))) \<and>
      (\<forall>r \<in> set (zip xs ys). \<exists>t e s k l.
          (t, e) \<in> set (tags p) \<and> s \<in> set (stems e) \<and>
          k < length (all_stems p) \<and> all_stems p ! k = s \<and>
          l < length (tags p) \<and> get_all_tags p ! l = t \<and>
          fst r = (replicate (length (all_stems p)) False)[k := True] \<and>
          snd r = (replicate (length (tags p)) False)[l := True])"
proof -
  define rows where "rows =
    concat (map (\<lambda>t. map (row_of (get_all_tags p) (all_stems p) t) (stems_of p t)) (get_all_tags p))"
  define sh where "sh = shuffle draw rows"
  have d: "distinct (map fst (tags p))" using assms(1) by (simp add: consistent_def)
  have rows: "all_rows p (get_all_tags p) (get_all_tags p) = Inr rows"
    unfolding rows_def by (rule consistent_rows[OF assms(1)])
  have ne: "rows \<noteq> []"
    unfolding rows_def by (rule training_rows_nonempty[OF assms])
  have res: "make_training_data draw p = Inr (map fst sh, map snd sh)"
    unfolding sh_def by (rule make_training_data_shuffled[OF rows ne])
  have msh: "mset sh = mset rows" unfolding sh_def by (rule mset_shuffle)
  have "length sh = length rows" using msh by (rule mset_eq_length)
  also have "\<dots> = (\<Sum>t\<leftarrow>get_all_tags p. length (stems_of p t))"
    unfolding rows_def by (rule rows_length)
  also have "\<dots> = (\<Sum>(t, e)\<leftarrow>tags p. length (stems e))"
    by (rule sum_stems_sorted_tags[OF d])
  finally have len: "length sh = (\<Sum>(t, e)\<leftarrow>tags p. length (stems e))" .
  have z: "zip (map fst sh) (map snd sh) = sh" by (rule zip_map_fst_snd)
  have each: "\<exists>t e s k l.
          (t, e) \<in> set (tags p) \<and> s \<in> set (stems e) \<and>
          k < length (all_stems p) \<and> all_stems p ! k = s \<and>
          l < length (tags p) \<and> get_all_tags p ! l = t \<and>
          fst r = (replicate (length (all_stems p)) False)[k := True] \<and>
          snd r = (replicate (length (tags p)) False)[l := True]"
    if "r \<in> set (zip (map fst sh) (map snd sh))" for r
  proof -
    from that have "r \<in> set sh" by (simp only: z)
    then have "r \<in> set_mset (mset sh)" by simp
    then have "r \<in> set rows" by (simp only: msh set_mset_mset)
    then show ?thesis unfolding rows_def by (rule training_row_shape[OF assms(1)])
  qed
  have l1: "length (map fst sh) = (\<Sum>(t, e)\<leftarrow>tags p. length (stems e))" using len by simp
  have l2: "length (map snd sh) = length (map fst sh)" by simp
  have m: "mset (zip (map fst sh) (map snd sh)) = mset rows" by (simp only: z msh)
  show ?thesis
    apply (rule exI[of _ "map fst sh"])
    apply (rule exI[of _ "map snd sh"])
    apply (intro conjI ballI)
        apply (rule res)
       apply (rule l1)
      apply (rule l2)
     apply (fold rows_def)
     apply (rule m)
    apply (rule each)
    apply assumption
    done
qed

text \<open>
  What \<open>convert_intents\<close> returns once the vocabulary is saved is the training data of
  the saved vocabulary, which agrees with its tags.
\<close>

lemma convert_intents_training_data:
  assumes "saved (convert_intents n draw file empty_patterns) = Some p"
  shows "consistent p \<and>
         returned (convert_intents n draw file empty_patterns) = make_training_data draw p"
proof -
  obtain r p1 where pr: "parse_intents_file n file empty_patterns = (r, p1)"
    by (cases "parse_intents_file n file empty_patterns")
  from assms pr obtain u where r: "r = Inr u"
    by (cases r) (auto simp: convert_intents_def)
  from assms pr r have p: "p = sort_all_stems p1"
    and m: "returned (convert_intents n draw file empty_patterns) = make_training_data draw p"
    by (auto simp: convert_intents_def Let_def)
  from pr r obtain intents where "file = Some intents"
    and "set_intents n intents empty_patterns = (Inr u, p1)"
    by (cases "file") (auto simp: parse_intents_file_def)
  then have "consistent p1"
    using set_intents_consistent consistent_empty by blast
  from finalized_stems(2)[OF this] m show ?thesis by (simp only: p)
qed

text \<open>The training data of the example vocabulary, with the example random draws.\<close>

lemma demo_training_data:
  "make_training_data demo_draw demo_vocabulary =
     Inr ([[False, False, False, True], [False, False, True, False], [False, True, False, False],
           [True, False, False, False], [False, True, False, False]],
          [[False, True, False], [False, True, False], [False, True, False],
           [True, False, False], [True, False, False]])"
  by code_simp

text \<open>
  Claim C2 fails on the code for a vocabulary without any stem: the catalog holding only
  the \<open>noanswer\<close> record of the class documentation is finalized and saved, the sum of
  the numbers of stems is \<open>0\<close>, and \<open>_make_training_data\<close> raises IndexError instead of
  returning no example.
\<close>

theorem training_data_of_no_stems_raises:
  "saved (convert_intents demo_nlp demo_draw (Some [noanswer_intent]) empty_patterns) =
     Some \<lparr>tags = [(''noanswer'', \<lparr>stems = [], answers = [''Pardon ?'']\<rparr>)], all_stems = []\<rparr> \<and>
   returned (convert_intents demo_nlp demo_draw (Some [noanswer_intent]) empty_patterns) =
     Inl IndexError \<and>
   make_training_data demo_draw
     \<lparr>tags = [(''noanswer'', \<lparr>stems = [], answers = [''Pardon ?'']\<rparr>)], all_stems = []\<rparr> =
     Inl IndexError"
proof -
  have a: "saved (convert_intents demo_nlp demo_draw (Some [noanswer_intent]) empty_patterns) =
     Some \<lparr>tags = [(''noanswer'', \<lparr>stems = [], answers = [''Pardon ?'']\<rparr>)], all_stems = []\<rparr>"
    by code_simp
  have b: "returned (convert_intents demo_nlp demo_draw (Some [noanswer_intent]) empty_patterns) =
     Inl IndexError"
    by code_simp
  have c: "make_training_data demo_draw
     \<lparr>tags = [(''noanswer'', \<lparr>stems = [], answers = [''Pardon ?'']\<rparr>)], all_stems = []\<rparr> =
     Inl IndexError"
    by code_simp
  from a b c show ?thesis by simp
qed

end
